theory Spec2Isabelle
  imports Main "HOL-Library.Signed_Division"
begin

section \<open>Python values\<close>

text \<open>
  The program is \<^verbatim>\<open>documentmanager.py\<close>: a class \<^verbatim>\<open>DocumentManager\<close> with the
  methods \<^verbatim>\<open>get_file_info\<close>, \<^verbatim>\<open>_determine_file_type\<close>, \<^verbatim>\<open>process_document\<close>
  and \<^verbatim>\<open>list_documents\<close>. Strings are \<open>string\<close>, Python's unbounded integers are
  \<open>int\<close>, and a dictionary literal sent to the backend is an association list in the
  order the literal is written, so that its set of keys can be talked about.
\<close>

datatype pyval = PyStr string | PyInt int

type_synonym dict = "(string \<times> pyval) list"

text \<open>
  Exceptions. \<open>IndexError\<close> and \<open>KeyError\<close> are what \<^verbatim>\<open>result.data[0]['id']\<close> raises
  on an empty row list and on a row without the key; \<open>LibError m\<close> is any other
  instance of \<^verbatim>\<open>Exception\<close> raised inside a library call (PyMuPDF, the backend client,
  file input and output), with \<open>m\<close> the text that \<^verbatim>\<open>str(e)\<close> gives.
\<close>

datatype exn = IndexError | KeyError string | LibError string

definition str_exn :: "exn \<Rightarrow> string" where
  "str_exn e = (case e of
      IndexError \<Rightarrow> ''list index out of range''
    | KeyError k \<Rightarrow> [CHR 0x27] @ k @ [CHR 0x27]
    | LibError m \<Rightarrow> m)"

text \<open>Decimal text of a number, as an f-string prints it.\<close>

definition digit_char :: "nat \<Rightarrow> char" where
  "digit_char d = ''0123456789'' ! d"

fun str_nat :: "nat \<Rightarrow> string" where
  "str_nat n = (if n < 10 then [digit_char n] else str_nat (n div 10) @ [digit_char (n mod 10)])"

declare str_nat.simps [simp del]

definition str_int :: "int \<Rightarrow> string" where
  "str_int i = (if i < 0 then ''-'' @ str_nat (nat (- i)) else str_nat (nat i))"

definition str_pyval :: "pyval \<Rightarrow> string" where
  "str_pyval v = (case v of PyStr s \<Rightarrow> s | PyInt i \<Rightarrow> str_int i)"

section \<open>String and path operations of the standard library\<close>

text \<open>
  \<^verbatim>\<open>str.lower()\<close> on the ASCII letters; every other character is left as it is. The
  keys of the classification table are ASCII, and no character outside ASCII has one
  of their letters as its lower case, so this is all of \<^verbatim>\<open>lower\<close> that the
  classification can observe.
\<close>

definition lower_char :: "char \<Rightarrow> char" where
  "lower_char c =
     (case map_of (zip ''ABCDEFGHIJKLMNOPQRSTUVWXYZ'' ''abcdefghijklmnopqrstuvwxyz'') c of
        Some d \<Rightarrow> d
      | None \<Rightarrow> c)"

definition lower :: "string \<Rightarrow> string" where
  "lower s = map lower_char s"

text \<open>
  \<^verbatim>\<open>pathlib.Path\<close> on a POSIX system: the path is split at \<^verbatim>\<open>/\<close>, empty components
  and \<^verbatim>\<open>.\<close> components are dropped, and \<^verbatim>\<open>name\<close> is the last component left (the
  empty string when none is). \<^verbatim>\<open>suffix\<close> and \<^verbatim>\<open>stem\<close> cut \<^verbatim>\<open>name\<close> at its last dot,
  when that dot is neither the first nor the last character:
  \<^verbatim>\<open>i = name.rfind('.'); if 0 < i < len(name) - 1: return name[i:] else: return ''\<close>.
\<close>

fun split_sep :: "char \<Rightarrow> string \<Rightarrow> string list" where
  "split_sep sep [] = [[]]"
| "split_sep sep (c # cs) =
     (if c = sep then [] # split_sep sep cs
      else (case split_sep sep cs of
              [] \<Rightarrow> [[c]]
            | x # xs \<Rightarrow> (c # x) # xs))"

definition path_name :: "string \<Rightarrow> string" where
  "path_name filepath =
     (case rev (filter (\<lambda>x. x \<noteq> [] \<and> x \<noteq> ''.'') (split_sep (CHR ''/'') filepath)) of
        [] \<Rightarrow> []
      | x # _ \<Rightarrow> x)"

fun rfind :: "string \<Rightarrow> char \<Rightarrow> int" where
  "rfind [] c = - 1"
| "rfind (x # xs) c =
     (let r = rfind xs c
      in if 0 \<le> r then r + 1 else if x = c then 0 else - 1)"

definition path_suffix :: "string \<Rightarrow> string" where
  "path_suffix filepath =
     (let name = path_name filepath; i = rfind name (CHR ''.'')
      in if 0 < i \<and> i < int (length name) - 1 then drop (nat i) name else [])"

definition path_stem :: "string \<Rightarrow> string" where
  "path_stem filepath =
     (let name = path_name filepath; i = rfind name (CHR ''.'')
      in if 0 < i \<and> i < int (length name) - 1 then take (nat i) name else name)"

section \<open>The environment of one call\<close>

text \<open>
  Everything \<^verbatim>\<open>process_document\<close> reads from outside is a field of \<open>world\<close>: what the
  file system says about the path, what PyMuPDF does with the file, what the operator
  types, and how the backend answers an insert. The calls the source makes without
  any handling and that the specification does not discuss (\<^verbatim>\<open>stat\<close> on a path that
  exists, \<^verbatim>\<open>mkdir\<close>, \<^verbatim>\<open>input\<close>, \<^verbatim>\<open>doc.close\<close>, \<^verbatim>\<open>print\<close>) are taken to return.

  A page of the opened document answers the three steps made on it: \<^verbatim>\<open>get_pixmap\<close>
  and \<^verbatim>\<open>pix.save\<close> (\<open>None\<close> when the call returns, \<open>Some e\<close> when it raises \<open>e\<close>), and
  reading the saved file back, where \<open>Inr t\<close> is the text
  \<^verbatim>\<open>base64.b64encode(img_file.read()).decode('utf-8')\<close>.
\<close>

record page =
  get_pixmap :: "exn option"
  save :: "exn option"
  read_b64 :: "exn + string"

record world =
  path_exists :: bool
  st_size :: int
  st_ctime_iso :: string
  st_mtime_iso :: string
  fitz_open :: "exn + page list"
  input_author :: string
  input_title :: string
  input_description :: string
  input_version :: string
  documents_insert :: "dict \<Rightarrow> exn + dict list"
  document_pages_insert :: "dict \<Rightarrow> exn option"

section \<open>Metadata extraction\<close>

definition type_mapping :: "(string \<times> string) list" where
  "type_mapping =
     [(''.pdf'', ''PDF''),
      (''.doc'', ''Word''),
      (''.docx'', ''Word''),
      (''.ppt'', ''PowerPoint''),
      (''.pptx'', ''PowerPoint'')]"

definition determine_file_type :: "string \<Rightarrow> string" where
  "determine_file_type extension =
     (let extension = lower extension
      in case map_of type_mapping extension of
           Some t \<Rightarrow> t
         | None \<Rightarrow> ''Other'')"

record file_info =
  filename :: string
  file_extension :: string
  file_type :: string
  size_kb :: int
  created_at :: string
  last_modified :: string

definition get_file_info :: "string \<Rightarrow> world \<Rightarrow> file_info" where
  "get_file_info filepath w =
     \<lparr> filename = path_name filepath,
       file_extension = drop 1 (path_suffix filepath),
       file_type = determine_file_type (path_suffix filepath),
       size_kb = st_size w div 1024,
       created_at = st_ctime_iso w,
       last_modified = st_mtime_iso w \<rparr>"

section \<open>Document ingestion\<close>

text \<open>
  The effects of a call, in the order they happen: console output (\<open>Print\<close>, and the
  prompt of an \<^verbatim>\<open>input\<close>), the output directory, an image file written by
  \<^verbatim>\<open>pix.save\<close>, an insert that the backend answered (\<open>Insert\<close>) or that raised
  (\<open>InsertRaised\<close>), each with its table and payload, and the release of the document
  handle. The source calls nothing else on the backend client from this method.
\<close>

datatype event =
    Print string
  | Input string
  | MkDir string
  | Save string
  | Insert string dict
  | InsertRaised string dict
  | Close

text \<open>
  A call ends by returning \<^verbatim>\<open>None\<close> (the bare \<^verbatim>\<open>return\<close>), \<^verbatim>\<open>True\<close> or \<^verbatim>\<open>False\<close>,
  or by an exception that leaves the method.
\<close>

datatype retval = PyNone | PyBool bool

datatype outcome = Returned retval | Raised exn

definition py_or :: "string \<Rightarrow> string \<Rightarrow> string" where
  "py_or a b = (if a \<noteq> [] then a else b)"

definition document_data ::
  "file_info \<Rightarrow> string \<Rightarrow> string \<Rightarrow> string \<Rightarrow> nat \<Rightarrow> string \<Rightarrow> dict" where
  "document_data fi author title description page_count version =
     [(''filename'', PyStr (filename fi)),
      (''file_extension'', PyStr (file_extension fi)),
      (''file_type'', PyStr (file_type fi)),
      (''size_kb'', PyInt (size_kb fi)),
      (''author'', PyStr author),
      (''description'', PyStr description),
      (''page_count'', PyInt (int page_count)),
      (''title'', PyStr title),
      (''version'', PyStr version)]"

definition page_data :: "pyval \<Rightarrow> nat \<Rightarrow> string \<Rightarrow> dict" where
  "page_data document_id page_num img_data =
     [(''document_id'', document_id),
      (''page_number'', PyInt (int page_num + 1)),
      (''page_image'', PyStr img_data)]"

definition output_path :: "string \<Rightarrow> nat \<Rightarrow> string" where
  "output_path base_filename page_num =
     ''output/'' @ base_filename @ ''-p'' @ str_nat (page_num + 1) @ ''.jpg''"

text \<open>
  The \<^verbatim>\<open>for page_num in range(page_count)\<close> loop, on the pages from \<open>page_num\<close> on.
  The result is the effects made and the exception that stopped the loop, if any.
\<close>

fun page_loop ::
  "world \<Rightarrow> pyval \<Rightarrow> string \<Rightarrow> nat \<Rightarrow> nat \<Rightarrow> page list \<Rightarrow> event list \<times> exn option" where
  "page_loop w document_id base_filename page_count page_num [] = ([], None)"
| "page_loop w document_id base_filename page_count page_num (pg # rest) =
     (case get_pixmap pg of
        Some e \<Rightarrow> ([], Some e)
      | None \<Rightarrow>
     (case save pg of
        Some e \<Rightarrow> ([], Some e)
      | None \<Rightarrow>
     (case read_b64 pg of
        Inl e \<Rightarrow> ([Save (output_path base_filename page_num)], Some e)
      | Inr img_data \<Rightarrow>
     (case document_pages_insert w (page_data document_id page_num img_data) of
        Some e \<Rightarrow>
          ([Save (output_path base_filename page_num),
            InsertRaised ''document_pages'' (page_data document_id page_num img_data)],
           Some e)
      | None \<Rightarrow>
          (let (evs, r) =
                 page_loop w document_id base_filename page_count (page_num + 1) rest
           in ([Save (output_path base_filename page_num),
                Insert ''document_pages'' (page_data document_id page_num img_data),
                Print (''Processed page '' @ str_nat (page_num + 1) @ '' of ''
                       @ str_nat page_count)] @ evs,
               r))))))"

text \<open>The body of the \<^verbatim>\<open>try\<close> block.\<close>

definition try_body :: "string \<Rightarrow> world \<Rightarrow> page list \<Rightarrow> dict \<Rightarrow> event list \<times> exn option" where
  "try_body filepath w doc dd =
     (case documents_insert w dd of
        Inl e \<Rightarrow> ([InsertRaised ''documents'' dd], Some e)
      | Inr data \<Rightarrow>
     (case data of
        [] \<Rightarrow> ([Insert ''documents'' dd], Some IndexError)
      | row # _ \<Rightarrow>
     (case map_of row ''id'' of
        None \<Rightarrow> ([Insert ''documents'' dd], Some (KeyError ''id''))
      | Some document_id \<Rightarrow>
          (let base_filename = path_stem filepath;
               (evs, r) = page_loop w document_id base_filename (length doc) 0 doc
           in case r of
                Some e \<Rightarrow> ([Insert ''documents'' dd] @ evs, Some e)
              | None \<Rightarrow>
                  ([Insert ''documents'' dd] @ evs @
                   [Close,
                    Print (CHR 0x0A # ''Document processed successfully! Document ID: ''
                           @ str_pyval document_id)],
                   None)))))"

definition prompts :: "event list" where
  "prompts =
     [Input ''Enter document author: '',
      Input ''Enter document title: '',
      Input ''Enter document description: '',
      Input ''Enter document version (press Enter for default 1.0): '']"

definition process_document :: "string \<Rightarrow> world \<Rightarrow> event list \<times> outcome" where
  "process_document filepath w =
     (if \<not> path_exists w
      then ([Print (''Error: File '' @ filepath @ '' not found!'')], Returned PyNone)
      else
        (let fi = get_file_info filepath w
         in case fitz_open w of
              Inl e \<Rightarrow> ([MkDir ''output''], Raised e)
            | Inr doc \<Rightarrow>
                (let page_count = length doc;
                     author = input_author w;
                     title = input_title w;
                     description = input_description w;
                     version = py_or (input_version w) ''1.0'';
                     dd = document_data fi author title description page_count version
                 in case try_body filepath w doc dd of
                      (evs, Some e) \<Rightarrow>
                        ([MkDir ''output''] @ prompts @ evs @
                         [Print (''Error processing document: '' @ str_exn e), Close],
                         Returned (PyBool False))
                    | (evs, None) \<Rightarrow>
                        ([MkDir ''output''] @ prompts @ evs, Returned (PyBool True)))))"

section \<open>Reading a trace\<close>

text \<open>
  The payloads of the inserts into a table that the backend answered, of those that
  raised, and of both together (every insert request sent); the image files written.
\<close>

definition inserts :: "string \<Rightarrow> event list \<Rightarrow> dict list" where
  "inserts t tr =
     concat (map (\<lambda>ev. case ev of Insert t' p \<Rightarrow> (if t' = t then [p] else []) | _ \<Rightarrow> []) tr)"

definition raised_inserts :: "string \<Rightarrow> event list \<Rightarrow> dict list" where
  "raised_inserts t tr =
     concat (map (\<lambda>ev. case ev of InsertRaised t' p \<Rightarrow> (if t' = t then [p] else []) | _ \<Rightarrow> []) tr)"

definition requests :: "event list \<Rightarrow> (string \<times> dict) list" where
  "requests tr =
     concat (map (\<lambda>ev. case ev of Insert t p \<Rightarrow> [(t, p)] | InsertRaised t p \<Rightarrow> [(t, p)]
                              | _ \<Rightarrow> []) tr)"

definition saves :: "event list \<Rightarrow> string list" where
  "saves tr = concat (map (\<lambda>ev. case ev of Save p \<Rightarrow> [p] | _ \<Rightarrow> []) tr)"

definition sent :: "string \<Rightarrow> event list \<Rightarrow> dict list" where
  "sent t tr = map snd (filter (\<lambda>r. fst r = t) (requests tr))"

text \<open>
  The Document payload that a call on \<open>filepath\<close> assembles when the opened document
  has \<open>page_count\<close> pages, and the identifier the backend returns for a payload:
  \<^verbatim>\<open>result.data[0]['id']\<close>, when the insert returns a first row that has the key.
\<close>

definition submitted_document :: "string \<Rightarrow> world \<Rightarrow> nat \<Rightarrow> dict" where
  "submitted_document filepath w page_count =
     document_data (get_file_info filepath w) (input_author w) (input_title w)
       (input_description w) page_count (py_or (input_version w) ''1.0'')"

definition returned_id :: "world \<Rightarrow> dict \<Rightarrow> pyval option" where
  "returned_id w dd =
     (case documents_insert w dd of
        Inl e \<Rightarrow> None
      | Inr data \<Rightarrow> (case data of [] \<Rightarrow> None | row # _ \<Rightarrow> map_of row ''id''))"

text \<open>
  What the environment does with the page at index \<open>page_num\<close>: every step on it
  returns (\<open>page_goes_through\<close>), or the page is rendered, saved and read back and
  the backend raises \<open>e\<close> on its insert (\<open>page_insert_raises\<close>).
\<close>

definition page_goes_through :: "world \<Rightarrow> pyval \<Rightarrow> nat \<Rightarrow> page \<Rightarrow> bool" where
  "page_goes_through w document_id page_num pg \<longleftrightarrow>
     get_pixmap pg = None \<and> save pg = None \<and>
     (case read_b64 pg of
        Inl e \<Rightarrow> False
      | Inr img_data \<Rightarrow>
          document_pages_insert w (page_data document_id page_num img_data) = None)"

definition page_insert_raises :: "world \<Rightarrow> pyval \<Rightarrow> nat \<Rightarrow> page \<Rightarrow> exn \<Rightarrow> bool" where
  "page_insert_raises w document_id page_num pg e \<longleftrightarrow>
     get_pixmap pg = None \<and> save pg = None \<and>
     (case read_b64 pg of
        Inl e' \<Rightarrow> False
      | Inr img_data \<Rightarrow>
          document_pages_insert w (page_data document_id page_num img_data) = Some e)"

text \<open>The keys of the two dictionary literals that the method sends.\<close>

definition document_keys :: "string list" where
  "document_keys =
     [''filename'', ''file_extension'', ''file_type'', ''size_kb'', ''author'',
      ''description'', ''page_count'', ''title'', ''version'']"

definition page_keys :: "string list" where
  "page_keys = [''document_id'', ''page_number'', ''page_image'']"

section \<open>Example environments\<close>

text \<open>
  A file of 2047 bytes that opens as a document of two pages, an operator who leaves
  the version blank, and a backend that answers every insert; and variations of it:
  the path missing, the file unreadable, the document empty, the document empty and
  the backend raising on the Document insert, the backend raising on the second page.
\<close>

definition good_page :: "string \<Rightarrow> page" where
  "good_page img = \<lparr> get_pixmap = None, save = None, read_b64 = Inr img \<rparr>"

definition two_pages :: world where
  "two_pages =
     \<lparr> path_exists = True,
       st_size = 2047,
       st_ctime_iso = ''2024-05-01T10:00:00'',
       st_mtime_iso = ''2024-05-02T11:30:00'',
       fitz_open = Inr [good_page ''QUJD'', good_page ''REVG''],
       input_author = ''Ann'',
       input_title = ''Report'',
       input_description = ''Quarterly'',
       input_version = [],
       documents_insert = (\<lambda>dd. Inr [[(''id'', PyInt 7)]]),
       document_pages_insert = (\<lambda>pd. None) \<rparr>"

definition missing_file :: world where
  "missing_file = two_pages \<lparr> path_exists := False \<rparr>"

definition corrupt_file :: world where
  "corrupt_file = two_pages \<lparr> fitz_open := Inl (LibError ''cannot open broken document'') \<rparr>"

definition empty_document :: world where
  "empty_document = two_pages \<lparr> fitz_open := Inr [] \<rparr>"

definition empty_document_backend_down :: world where
  "empty_document_backend_down =
     empty_document \<lparr> documents_insert := (\<lambda>dd. Inl (LibError ''connection refused'')) \<rparr>"

definition fails_on_page_2 :: world where
  "fails_on_page_2 =
     two_pages \<lparr> document_pages_insert :=
       (\<lambda>pd. if map_of pd ''page_number'' = Some (PyInt 2)
             then Some (LibError ''connection reset'') else None) \<rparr>"

section \<open>Facts about traces and the page loop\<close>

lemma inserts_simps [simp]:
  "inserts t [] = []"
  "inserts t (ev # tr) =
     (case ev of Insert t' p \<Rightarrow> (if t' = t then [p] else []) | _ \<Rightarrow> []) @ inserts t tr"
  "inserts t (tr @ tr') = inserts t tr @ inserts t tr'"
  by (simp_all add: inserts_def)

lemma raised_inserts_simps [simp]:
  "raised_inserts t [] = []"
  "raised_inserts t (ev # tr) =
     (case ev of InsertRaised t' p \<Rightarrow> (if t' = t then [p] else []) | _ \<Rightarrow> [])
     @ raised_inserts t tr"
  "raised_inserts t (tr @ tr') = raised_inserts t tr @ raised_inserts t tr'"
  by (simp_all add: raised_inserts_def)

lemma requests_simps [simp]:
  "requests [] = []"
  "requests (ev # tr) =
     (case ev of Insert t p \<Rightarrow> [(t, p)] | InsertRaised t p \<Rightarrow> [(t, p)] | _ \<Rightarrow> [])
     @ requests tr"
  "requests (tr @ tr') = requests tr @ requests tr'"
  by (simp_all add: requests_def)

lemma saves_simps [simp]:
  "saves [] = []"
  "saves (ev # tr) = (case ev of Save p \<Rightarrow> [p] | _ \<Rightarrow> []) @ saves tr"
  "saves (tr @ tr') = saves tr @ saves tr'"
  by (simp_all add: saves_def)

lemma sent_simps [simp]:
  "sent t [] = []"
  "sent t (ev # tr) =
     (case ev of Insert t' p \<Rightarrow> (if t' = t then [p] else [])
               | InsertRaised t' p \<Rightarrow> (if t' = t then [p] else [])
               | _ \<Rightarrow> []) @ sent t tr"
  "sent t (tr @ tr') = sent t tr @ sent t tr'"
  by (simp_all add: sent_def split: event.splits)

lemma sent_prompts [simp]: "sent t prompts = []" "inserts t prompts = []"
  "raised_inserts t prompts = []" "saves prompts = []" "requests prompts = []"
  by (simp_all add: prompts_def)

lemma page_loop_done:
  "page_loop w did base pc n pages = (evs, None) \<Longrightarrow>
     (\<exists>imgs. length imgs = length pages \<and>
        inserts ''document_pages'' evs =
          map (\<lambda>(k, img). page_data did k img) (zip [n..<n + length pages] imgs)) \<and>
     raised_inserts t evs = [] \<and>
     inserts ''documents'' evs = [] \<and>
     saves evs = map (output_path base) [n..<n + length pages]"
proof (induction pages arbitrary: n evs)
  case Nil
  then show ?case by simp
next
  case (Cons pg rest)
  from Cons.prems obtain img evs' where
    ok: "get_pixmap pg = None" "save pg = None" "read_b64 pg = Inr img"
        "document_pages_insert w (page_data did n img) = None"
    and rest: "page_loop w did base pc (Suc n) rest = (evs', None)"
    and evs: "evs = [Save (output_path base n), Insert ''document_pages'' (page_data did n img),
                Print (''Processed page '' @ str_nat (n + 1) @ '' of '' @ str_nat pc)] @ evs'"
    by (auto split: option.splits sum.splits prod.splits)
  from Cons.IH [OF rest] obtain imgs where
    imgs: "length imgs = length rest"
      "inserts ''document_pages'' evs' =
          map (\<lambda>(k, img). page_data did k img) (zip [Suc n..<Suc n + length rest] imgs)"
    and others: "raised_inserts t evs' = []" "inserts ''documents'' evs' = []"
      "saves evs' = map (output_path base) [Suc n..<Suc n + length rest]"
    by blast
  have upt: "[n..<n + length (pg # rest)] = n # [Suc n..<Suc n + length rest]"
    by (subst upt_rec) simp
  have "length (img # imgs) = length (pg # rest) \<and>
        inserts ''document_pages'' evs =
          map (\<lambda>(k, img). page_data did k img) (zip [n..<n + length (pg # rest)] (img # imgs))"
    unfolding upt using imgs evs by simp
  then have ex: "\<exists>imgs. length imgs = length (pg # rest) \<and>
        inserts ''document_pages'' evs =
          map (\<lambda>(k, img). page_data did k img) (zip [n..<n + length (pg # rest)] imgs)"
    by blast
  have sv: "saves evs = map (output_path base) [n..<n + length (pg # rest)]"
    unfolding upt using others evs by simp
  show ?case using ex others evs sv by simp
qed

lemma page_loop_requests:
  "page_loop w did base pc n pages = (evs, r) \<Longrightarrow> (t, p) \<in> set (requests evs) \<Longrightarrow>
     t = ''document_pages'' \<and> (\<exists>k img. p = page_data did k img)"
proof (induction pages arbitrary: n evs r)
  case Nil
  then show ?case by simp
next
  case (Cons pg rest)
  show ?case
  proof (cases "page_goes_through w did n pg")
    case False
    with Cons.prems show ?thesis
      by (fastforce simp: page_goes_through_def split: option.splits sum.splits prod.splits)
  next
    case True
    with Cons.prems obtain img evs' where
      rest: "page_loop w did base pc (Suc n) rest = (evs', r)"
      and evs: "evs = [Save (output_path base n),
                  Insert ''document_pages'' (page_data did n img),
                  Print (''Processed page '' @ str_nat (n + 1) @ '' of '' @ str_nat pc)] @ evs'"
      by (auto simp: page_goes_through_def split: option.splits sum.splits prod.splits)
    from Cons.prems(2) evs
    have "(t, p) = (''document_pages'', page_data did n img) \<or> (t, p) \<in> set (requests evs')"
      by simp
    then show ?thesis
    proof
      assume "(t, p) = (''document_pages'', page_data did n img)"
      then show ?thesis by blast
    next
      assume "(t, p) \<in> set (requests evs')"
      with Cons.IH [OF rest] show ?thesis .
    qed
  qed
qed

lemma page_loop_no_close:
  "page_loop w did base pc n pages = (evs, r) \<Longrightarrow> Close \<notin> set evs"
proof (induction pages arbitrary: n evs r)
  case Nil
  then show ?case by simp
next
  case (Cons pg rest)
  then show ?case
    by (fastforce split: option.splits sum.splits prod.splits)
qed

lemma page_loop_stops:
  "m < length pages \<Longrightarrow>
   (\<forall>k<m. page_goes_through w did (n + k) (pages ! k)) \<Longrightarrow>
   page_insert_raises w did (n + m) (pages ! m) e \<Longrightarrow>
   \<exists>evs img. page_loop w did base pc n pages =
               (evs @ [InsertRaised ''document_pages'' (page_data did (n + m) img)], Some e) \<and>
            length (inserts ''document_pages'' evs) = m \<and>
            raised_inserts ''document_pages'' evs = [] \<and>
            length (saves evs) = Suc m"
proof (induction m arbitrary: n pages)
  case 0
  then obtain pg rest where pages: "pages = pg # rest" by (cases pages) auto
  from 0(3) pages obtain img where
    "get_pixmap pg = None" "save pg = None" "read_b64 pg = Inr img"
    "document_pages_insert w (page_data did n img) = Some e"
    by (auto simp: page_insert_raises_def split: sum.splits)
  then have "page_loop w did base pc n pages =
      ([Save (output_path base n)]
       @ [InsertRaised ''document_pages'' (page_data did (n + 0) img)], Some e)"
    using pages by simp
  moreover have "length (inserts ''document_pages'' [Save (output_path base n)]) = 0"
    "raised_inserts ''document_pages'' [Save (output_path base n)] = []"
    "length (saves [Save (output_path base n)]) = Suc 0"
    by simp_all
  ultimately show ?case by blast
next
  case (Suc m)
  then obtain pg rest where pages: "pages = pg # rest" by (cases pages) auto
  from Suc.prems(2) pages have "page_goes_through w did n pg" by fastforce
  then obtain img where
    ok: "get_pixmap pg = None" "save pg = None" "read_b64 pg = Inr img"
        "document_pages_insert w (page_data did n img) = None"
    by (auto simp: page_goes_through_def split: sum.splits)
  have 1: "m < length rest" using Suc.prems(1) pages by simp
  have 2: "\<forall>k<m. page_goes_through w did (Suc n + k) (rest ! k)"
  proof (intro allI impI)
    fix k assume "k < m"
    then have "Suc k < Suc m" by simp
    with Suc.prems(2) have "page_goes_through w did (n + Suc k) (pages ! Suc k)" by blast
    then show "page_goes_through w did (Suc n + k) (rest ! k)" using pages by simp
  qed
  have 3: "page_insert_raises w did (Suc n + m) (rest ! m) e"
    using Suc.prems(3) pages by simp
  from Suc.IH [OF 1 2 3] obtain evs img' where
    rest: "page_loop w did base pc (Suc n) rest =
             (evs @ [InsertRaised ''document_pages'' (page_data did (Suc n + m) img')], Some e)"
    and cnt: "length (inserts ''document_pages'' evs) = m"
      "raised_inserts ''document_pages'' evs = []" "length (saves evs) = Suc m"
    by blast
  let ?hd = "[Save (output_path base n), Insert ''document_pages'' (page_data did n img),
             Print (''Processed page '' @ str_nat (n + 1) @ '' of '' @ str_nat pc)]"
  have "page_loop w did base pc n pages =
          ((?hd @ evs) @ [InsertRaised ''document_pages'' (page_data did (n + Suc m) img')],
           Some e)"
    using pages ok rest by simp
  moreover have "length (inserts ''document_pages'' (?hd @ evs)) = Suc m"
    "raised_inserts ''document_pages'' (?hd @ evs) = []"
    "length (saves (?hd @ evs)) = Suc (Suc m)"
    using cnt by simp_all
  ultimately show ?case by blast
qed

lemma page_loop_world:
  "document_pages_insert w' = document_pages_insert w \<Longrightarrow>
   page_loop w' did base pc n pages = page_loop w did base pc n pages"
  by (induction pages arbitrary: n) (simp_all split: option.splits sum.splits)

section \<open>Facts about the \<^verbatim>\<open>try\<close> block and the whole call\<close>

lemma inserts_subset_sent: "set (inserts t tr) \<subseteq> set (sent t tr)"
  by (induction tr) (auto split: event.splits)

lemma sent_no_raise: "raised_inserts t tr = [] \<Longrightarrow> sent t tr = inserts t tr"
  by (induction tr) (auto split: event.splits if_splits)

lemma page_loop_sent_documents:
  assumes "page_loop w did base pc n pages = (evs, r)"
  shows "sent ''documents'' evs = []"
proof -
  have "\<forall>q\<in>set (requests evs). fst q \<noteq> ''documents''"
  proof
    fix q assume "q \<in> set (requests evs)"
    then have "(fst q, snd q) \<in> set (requests evs)" by simp
    from page_loop_requests [OF assms this] show "fst q \<noteq> ''documents''" by simp
  qed
  then show ?thesis by (simp add: sent_def filter_empty_conv)
qed

lemma page_loop_inserts_documents:
  assumes "page_loop w did base pc n pages = (evs, r)"
  shows "inserts ''documents'' evs = []"
  using page_loop_sent_documents [OF assms] inserts_subset_sent [of "''documents''" evs]
  by simp

lemma try_body_None:
  assumes "try_body fp w doc dd = (evs, None)"
  shows "\<exists>did evs'. returned_id w dd = Some did \<and>
           page_loop w did (path_stem fp) (length doc) 0 doc = (evs', None) \<and>
           evs = [Insert ''documents'' dd] @ evs' @
                 [Close, Print (CHR 0x0A # ''Document processed successfully! Document ID: ''
                                @ str_pyval did)]"
  using assms
  by (auto simp: try_body_def returned_id_def
           split: sum.splits list.splits option.splits prod.splits)

lemma try_body_sent:
  assumes "try_body fp w doc dd = (evs, r)"
  shows "sent ''documents'' evs = [dd]"
  using assms
  by (auto simp: try_body_def page_loop_sent_documents
           split: sum.splits list.splits option.splits prod.splits)

lemma try_body_stored:
  assumes "try_body fp w doc dd = (evs, r)" and "documents_insert w dd = Inr data"
  shows "inserts ''documents'' evs = [dd]"
  using assms
  by (auto simp: try_body_def page_loop_inserts_documents
           split: sum.splits list.splits option.splits prod.splits)

lemma try_body_world:
  "documents_insert w' = documents_insert w \<Longrightarrow>
   document_pages_insert w' = document_pages_insert w \<Longrightarrow>
   try_body fp w' doc dd = try_body fp w doc dd"
  by (simp add: try_body_def page_loop_world [of w' w]
        split: sum.splits list.splits option.splits)

lemma process_document_opened:
  assumes "path_exists w" and "fitz_open w = Inr doc"
  shows "\<exists>evs r. try_body fp w doc (submitted_document fp w (length doc)) = (evs, r) \<and>
           process_document fp w =
             (case r of
                Some e \<Rightarrow>
                  ([MkDir ''output''] @ prompts @ evs @
                   [Print (''Error processing document: '' @ str_exn e), Close],
                   Returned (PyBool False))
              | None \<Rightarrow> ([MkDir ''output''] @ prompts @ evs, Returned (PyBool True)))"
  using assms
  by (cases "try_body fp w doc (submitted_document fp w (length doc))")
     (simp add: process_document_def submitted_document_def Let_def split: option.splits)

lemma process_document_True:
  assumes "process_document fp w = (tr, Returned (PyBool True))"
  shows "\<exists>doc evs. path_exists w \<and> fitz_open w = Inr doc \<and>
           try_body fp w doc (submitted_document fp w (length doc)) = (evs, None) \<and>
           tr = [MkDir ''output''] @ prompts @ evs"
  using assms
  by (auto simp: process_document_def submitted_document_def Let_def
           split: if_splits sum.splits option.splits prod.splits)

lemma process_document_sent:
  assumes "path_exists w" and "fitz_open w = Inr doc"
  shows "sent ''documents'' (fst (process_document fp w)) =
           [submitted_document fp w (length doc)]"
proof -
  from process_document_opened [OF assms, of fp] obtain evs r where
    tb: "try_body fp w doc (submitted_document fp w (length doc)) = (evs, r)"
    and pd: "process_document fp w =
             (case r of
                Some e \<Rightarrow>
                  ([MkDir ''output''] @ prompts @ evs @
                   [Print (''Error processing document: '' @ str_exn e), Close],
                   Returned (PyBool False))
              | None \<Rightarrow> ([MkDir ''output''] @ prompts @ evs, Returned (PyBool True)))"
    by blast
  from try_body_sent [OF tb] pd show ?thesis
    by (cases r) simp_all
qed

lemma process_document_stored:
  assumes "path_exists w" and "fitz_open w = Inr doc"
    and "documents_insert w (submitted_document fp w (length doc)) = Inr data"
  shows "inserts ''documents'' (fst (process_document fp w)) =
           [submitted_document fp w (length doc)]"
proof -
  from process_document_opened [OF assms(1,2), of fp] obtain evs r where
    tb: "try_body fp w doc (submitted_document fp w (length doc)) = (evs, r)"
    and pd: "process_document fp w =
             (case r of
                Some e \<Rightarrow>
                  ([MkDir ''output''] @ prompts @ evs @
                   [Print (''Error processing document: '' @ str_exn e), Close],
                   Returned (PyBool False))
              | None \<Rightarrow> ([MkDir ''output''] @ prompts @ evs, Returned (PyBool True)))"
    by blast
  from try_body_stored [OF tb assms(3)] pd show ?thesis
    by (cases r) simp_all
qed

lemma rfind_found:
  "0 \<le> rfind s c \<Longrightarrow> nat (rfind s c) < length s \<and> s ! nat (rfind s c) = c"
proof (induction s)
  case Nil
  then show ?case by simp
next
  case (Cons x xs)
  show ?case
  proof (cases "0 \<le> rfind xs c")
    case True
    with Cons.IH have "nat (rfind xs c) < length xs" "xs ! nat (rfind xs c) = c" by simp_all
    moreover have "nat (rfind xs c + 1) = Suc (nat (rfind xs c))" using True by simp
    ultimately show ?thesis using True by (simp add: Let_def)
  next
    case False
    with Cons.prems show ?thesis by (simp add: Let_def split: if_splits)
  qed
qed

lemma path_suffix_dot:
  assumes "path_suffix fp \<noteq> []"
  shows "path_suffix fp = CHR ''.'' # drop 1 (path_suffix fp)"
proof -
  let ?name = "path_name fp"
  let ?i = "rfind ?name (CHR ''.'')"
  from assms have i: "0 < ?i" and sfx: "path_suffix fp = drop (nat ?i) ?name"
    by (auto simp: path_suffix_def Let_def split: if_splits)
  from i rfind_found [of ?name "CHR ''.''"]
  have "nat ?i < length ?name" "?name ! nat ?i = CHR ''.''" by simp_all
  then have "drop (nat ?i) ?name = CHR ''.'' # drop (Suc (nat ?i)) ?name"
    by (metis Cons_nth_drop_Suc)
  then show ?thesis using sfx by simp
qed

lemma lower_dot: "lower_char (CHR ''.'') = CHR ''.''"
  by (simp add: lower_char_def)

lemma try_body_requests:
  assumes "try_body fp w doc dd = (evs, r)" and "(t, p) \<in> set (requests evs)"
  shows "(t = ''documents'' \<and> p = dd) \<or>
         (t = ''document_pages'' \<and> (\<exists>did k img. p = page_data did k img))"
proof (cases "returned_id w dd")
  case None
  with assms show ?thesis
    by (auto simp: try_body_def returned_id_def split: sum.splits list.splits option.splits)
next
  case (Some did)
  obtain evs' r' where pl: "page_loop w did (path_stem fp) (length doc) 0 doc = (evs', r')"
    by (cases "page_loop w did (path_stem fp) (length doc) 0 doc")
  with Some assms(1) have "requests evs = (''documents'', dd) # requests evs'"
    by (auto simp: try_body_def returned_id_def
             split: sum.splits list.splits option.splits)
  with assms(2) have "(t, p) = (''documents'', dd) \<or> (t, p) \<in> set (requests evs')" by simp
  then show ?thesis
  proof
    assume "(t, p) = (''documents'', dd)"
    then show ?thesis by simp
  next
    assume "(t, p) \<in> set (requests evs')"
    from page_loop_requests [OF pl this] show ?thesis by blast
  qed
qed

lemma process_document_requests:
  assumes "process_document fp w = (tr, out)" and "(t, p) \<in> set (requests tr)"
  shows "(t = ''documents'' \<and> (\<exists>n. p = submitted_document fp w n)) \<or>
         (t = ''document_pages'' \<and> (\<exists>did k img. p = page_data did k img))"
proof (cases "path_exists w")
  case False
  with assms show ?thesis by (auto simp: process_document_def)
next
  case True
  show ?thesis
  proof (cases "fitz_open w")
    case (Inl e)
    with True assms show ?thesis by (auto simp: process_document_def)
  next
    case (Inr doc)
    from process_document_opened [OF True Inr, of fp] obtain evs r where
      tb: "try_body fp w doc (submitted_document fp w (length doc)) = (evs, r)"
      and pd: "process_document fp w =
             (case r of
                Some e \<Rightarrow>
                  ([MkDir ''output''] @ prompts @ evs @
                   [Print (''Error processing document: '' @ str_exn e), Close],
                   Returned (PyBool False))
              | None \<Rightarrow> ([MkDir ''output''] @ prompts @ evs, Returned (PyBool True)))"
      by blast
    from pd assms(1) have "requests tr = requests evs" by (cases r) auto
    with assms(2) try_body_requests [OF tb, of t p] show ?thesis by auto
  qed
qed

lemma document_data_timestamps:
  "document_data (fi \<lparr> created_at := c, last_modified := m \<rparr>) a t d n v =
   document_data fi a t d n v"
  by (simp add: document_data_def)

lemma get_file_info_timestamps:
  "get_file_info fp (w \<lparr> st_ctime_iso := c, st_mtime_iso := m \<rparr>) =
   (get_file_info fp w) \<lparr> created_at := c, last_modified := m \<rparr>"
  by (simp add: get_file_info_def)

lemma process_document_timestamps:
  "process_document fp (w \<lparr> st_ctime_iso := c, st_mtime_iso := m \<rparr>) = process_document fp w"
proof -
  let ?w' = "w \<lparr> st_ctime_iso := c, st_mtime_iso := m \<rparr>"
  have tb: "\<And>doc dd. try_body fp ?w' doc dd = try_body fp w doc dd"
    by (rule try_body_world) simp_all
  show ?thesis
    by (simp add: process_document_def get_file_info_timestamps document_data_timestamps tb
             Let_def split: sum.splits)
qed

lemma success_stores_document:
  assumes ok: "process_document fp w = (tr, Returned (PyBool True))"
  shows "\<exists>doc. fitz_open w = Inr doc \<and>
           inserts ''documents'' tr = [submitted_document fp w (length doc)] \<and>
           sent ''documents'' tr = [submitted_document fp w (length doc)]"
proof -
  from process_document_True [OF ok] obtain doc evs where
    ex: "path_exists w" and op: "fitz_open w = Inr doc"
    and tb: "try_body fp w doc (submitted_document fp w (length doc)) = (evs, None)"
    by blast
  let ?d = "submitted_document fp w (length doc)"
  from try_body_None [OF tb] obtain did where "returned_id w ?d = Some did" by blast
  then obtain data where data: "documents_insert w ?d = Inr data"
    by (cases "documents_insert w ?d") (simp_all add: returned_id_def)
  have tr: "fst (process_document fp w) = tr" by (simp add: ok)
  have 1: "inserts ''documents'' tr = [?d]"
    using process_document_stored [OF ex op data] unfolding tr .
  have 2: "sent ''documents'' tr = [?d]"
    using process_document_sent [OF ex op, of fp] unfolding tr .
  from op 1 2 show ?thesis by blast
qed

lemma submitted_document_keys: "map fst (submitted_document fp w n) = document_keys"
  by (simp add: submitted_document_def document_data_def document_keys_def)

lemma page_data_keys: "map fst (page_data did k img) = page_keys"
  by (simp add: page_data_def page_keys_def)

lemma no_timestamp_keys:
  "''created_at'' \<notin> set document_keys" "''last_modified'' \<notin> set document_keys"
  "''created_at'' \<notin> set page_keys" "''last_modified'' \<notin> set page_keys"
  by (simp_all add: document_keys_def page_keys_def)

lemma request_keys:
  assumes "process_document fp w = (tr, out)" and "(t, p) \<in> set (requests tr)"
  shows "(t = ''documents'' \<and> map fst p = document_keys) \<or>
         (t = ''document_pages'' \<and> map fst p = page_keys)"
proof -
  from process_document_requests [OF assms]
  consider n where "t = ''documents''" "p = submitted_document fp w n"
    | did k img where "t = ''document_pages''" "p = page_data did k img"
    by blast
  then show ?thesis
  proof cases
    case 1
    then show ?thesis by (simp only: submitted_document_keys simp_thms)
  next
    case 2
    then show ?thesis by (simp only: page_data_keys simp_thms)
  qed
qed

lemma page_numbers_zip:
  "length imgs = length ks \<Longrightarrow>
   map (\<lambda>p. map_of p ''page_number'') (map (\<lambda>(k, img). page_data did k img) (zip ks imgs)) =
   map (\<lambda>k. Some (PyInt (int k + 1))) ks"
proof (induction ks arbitrary: imgs)
  case Nil
  then show ?case by simp
next
  case (Cons k ks)
  then obtain img rest where "imgs = img # rest" by (cases imgs) auto
  with Cons show ?case by (simp add: page_data_def)
qed

lemma page_numbers_from_one:
  "map (\<lambda>k. Some (PyInt (int k + 1))) [0..<n] = map (\<lambda>k. Some (PyInt (int k))) [1..<Suc n]"
proof -
  have "[1..<Suc n] = map Suc [0..<n]" by (simp add: map_Suc_upt del: upt_Suc)
  then show ?thesis by (simp add: o_def add.commute del: upt_Suc)
qed

lemma page_ids_zip:
  "p \<in> set (map (\<lambda>(k, img). page_data did k img) (zip ks imgs)) \<Longrightarrow>
   map_of p ''document_id'' = Some did"
  by (auto simp: page_data_def)


lemma two_pages_run:
  "process_document ''a.pdf'' two_pages =
     ([MkDir ''output''] @ prompts @
      [Insert ''documents'' (submitted_document ''a.pdf'' two_pages 2),
       Save ''output/a-p1.jpg'',
       Insert ''document_pages'' (page_data (PyInt 7) 0 ''QUJD''),
       Print ''Processed page 1 of 2'',
       Save ''output/a-p2.jpg'',
       Insert ''document_pages'' (page_data (PyInt 7) 1 ''REVG''),
       Print ''Processed page 2 of 2'',
       Close,
       Print (CHR 0x0A # ''Document processed successfully! Document ID: 7'')],
      Returned (PyBool True))"
  by (simp add: process_document_def two_pages_def good_page_def try_body_def
        submitted_document_def output_path_def path_stem_def path_name_def
        str_nat.simps digit_char_def str_pyval_def str_int_def numeral_2_eq_2)


lemma try_body_empty:
  assumes "try_body fp w [] dd = (evs, r)"
  shows "sent ''document_pages'' evs = [] \<and> saves evs = [] \<and>
         (r = None \<longleftrightarrow> returned_id w dd \<noteq> None)"
  using assms
  by (auto simp: try_body_def returned_id_def split: sum.splits list.splits option.splits)

lemma try_body_stops:
  assumes rid: "returned_id w dd = Some did"
    and pl: "page_loop w did (path_stem fp) (length doc) 0 doc = (evs, Some e)"
  shows "try_body fp w doc dd = ([Insert ''documents'' dd] @ evs, Some e)"
proof -
  from rid obtain row rows where
    "documents_insert w dd = Inr (row # rows)" "map_of row ''id'' = Some did"
    by (auto simp: returned_id_def split: sum.splits list.splits)
  with pl show ?thesis by (simp add: try_body_def)
qed

lemma prompts_no_close: "Close \<notin> set prompts"
  by (simp add: prompts_def)

section \<open>Classification and metadata\<close>

text \<open>
  C5. For every extension string, the classification lower-cases it and then maps
  \<^verbatim>\<open>.pdf\<close> to PDF, \<^verbatim>\<open>.doc\<close> and \<^verbatim>\<open>.docx\<close> to Word, \<^verbatim>\<open>.ppt\<close> and \<^verbatim>\<open>.pptx\<close>
  to PowerPoint, and every other extension, the empty one included, to Other.
\<close>

theorem determine_file_type_table:
  "determine_file_type ext =
     (if lower ext = ''.pdf'' then ''PDF''
      else if lower ext = ''.doc'' \<or> lower ext = ''.docx'' then ''Word''
      else if lower ext = ''.ppt'' \<or> lower ext = ''.pptx'' then ''PowerPoint''
      else ''Other'')"
  by (simp add: determine_file_type_def type_mapping_def)

theorem determine_file_type_table_witness:
  "determine_file_type ''.PDF'' = ''PDF'' \<and>
   determine_file_type ''.doc'' = ''Word'' \<and>
   determine_file_type ''.Docx'' = ''Word'' \<and>
   determine_file_type ''.ppt'' = ''PowerPoint'' \<and>
   determine_file_type ''.pptX'' = ''PowerPoint'' \<and>
   determine_file_type ''.txt'' = ''Other'' \<and>
   determine_file_type [] = ''Other''"
  using determine_file_type_table [of "''.PDF''"] determine_file_type_table [of "''.doc''"]
    determine_file_type_table [of "''.Docx''"] determine_file_type_table [of "''.ppt''"]
    determine_file_type_table [of "''.pptX''"] determine_file_type_table [of "''.txt''"]
    determine_file_type_table [of "[]"]
  by (simp add: lower_def lower_char_def)

text \<open>
  C7. For a file of \<open>s \<ge> 0\<close> bytes, \<open>size_kb\<close> is \<open>s\<close> divided by 1024 and truncated
  toward zero (\<open>sdiv\<close> is the division that rounds toward zero): the largest \<open>k\<close> with
  \<open>1024 * k \<le> s\<close>. So 2047 bytes give 1, 1024 bytes give 1 and 1023 bytes give 0.
\<close>

theorem size_kb_truncates:
  assumes "0 \<le> st_size w"
  shows "size_kb (get_file_info fp w) = st_size w sdiv 1024 \<and>
         0 \<le> size_kb (get_file_info fp w) \<and>
         1024 * size_kb (get_file_info fp w) \<le> st_size w \<and>
         st_size w < 1024 * size_kb (get_file_info fp w) + 1024"
proof -
  have "st_size w sdiv 1024 = st_size w div 1024"
    using assms by (simp add: signed_divide_int_def sgn_if)
  moreover have "size_kb (get_file_info fp w) = st_size w div 1024"
    by (simp add: get_file_info_def)
  moreover have "0 \<le> st_size w div 1024" using assms by simp
  moreover have "1024 * (st_size w div 1024) \<le> st_size w"
    "st_size w < 1024 * (st_size w div 1024) + 1024"
    by presburger+
  ultimately show ?thesis by simp
qed

theorem size_kb_truncates_witness:
  "0 \<le> st_size (two_pages \<lparr> st_size := 2047 \<rparr>) \<and>
   size_kb (get_file_info ''a.pdf'' (two_pages \<lparr> st_size := 2047 \<rparr>)) = 1 \<and>
   size_kb (get_file_info ''a.pdf'' (two_pages \<lparr> st_size := 1024 \<rparr>)) = 1 \<and>
   size_kb (get_file_info ''a.pdf'' (two_pages \<lparr> st_size := 1023 \<rparr>)) = 0"
  using size_kb_truncates [of "two_pages \<lparr> st_size := 2047 \<rparr>" "''a.pdf''"]
    size_kb_truncates [of "two_pages \<lparr> st_size := 1024 \<rparr>" "''a.pdf''"]
    size_kb_truncates [of "two_pages \<lparr> st_size := 1023 \<rparr>" "''a.pdf''"]
  by (simp add: signed_divide_int_def)

section \<open>Paths that are missing or do not open\<close>

text \<open>
  C3. On a path that does not exist the call prints the error line, sends nothing to
  the backend, writes no file and does not raise; what it returns is \<^verbatim>\<open>None\<close>, from
  the bare \<^verbatim>\<open>return\<close>, where the failure exit of the \<^verbatim>\<open>except\<close> branch returns
  \<^verbatim>\<open>False\<close>.
\<close>

theorem missing_file_returns_None:
  "process_document ''missing.pdf'' missing_file =
     ([Print ''Error: File missing.pdf not found!''], Returned PyNone)"
  by (simp add: process_document_def missing_file_def two_pages_def)

text \<open>
  C8. When the path exists and PyMuPDF raises on opening it, the exception leaves
  \<^verbatim>\<open>process_document\<close>: the only effect before it is the output directory, no insert
  is sent, and no error line is printed by the method.
\<close>

theorem open_error_propagates:
  assumes "path_exists w" and "fitz_open w = Inl e"
  shows "process_document fp w = ([MkDir ''output''], Raised e) \<and>
         requests (fst (process_document fp w)) = []"
  using assms by (simp add: process_document_def)

theorem open_error_propagates_witness:
  "path_exists corrupt_file \<and>
   fitz_open corrupt_file = Inl (LibError ''cannot open broken document'') \<and>
   process_document ''broken.pdf'' corrupt_file =
     ([MkDir ''output''], Raised (LibError ''cannot open broken document''))"
proof -
  have h: "path_exists corrupt_file"
    "fitz_open corrupt_file = Inl (LibError ''cannot open broken document'')"
    by (simp_all add: corrupt_file_def two_pages_def)
  from open_error_propagates [OF h] h show ?thesis by simp
qed

section \<open>The extension field\<close>

text \<open>
  C4, as stated: the \<open>file_extension\<close> field is the extension lower-cased and without
  its dot. For \<^verbatim>\<open>REPORT.PDF\<close> the field is \<^verbatim>\<open>PDF\<close>, not \<^verbatim>\<open>pdf\<close>: only the
  classification lower-cases, the field is \<^verbatim>\<open>path.suffix[1:]\<close>.
\<close>

theorem file_extension_lowercase_counterexample:
  "file_extension (get_file_info ''REPORT.PDF'' two_pages) = ''PDF'' \<and>
   drop 1 (lower (path_suffix ''REPORT.PDF'')) = ''pdf'' \<and>
   file_extension (get_file_info ''REPORT.PDF'' two_pages)
     \<noteq> drop 1 (lower (path_suffix ''REPORT.PDF''))"
  by (simp add: get_file_info_def path_suffix_def path_name_def lower_def lower_char_def)

text \<open>
  C4, amended: for every path, the \<open>file_extension\<close> field that \<open>get_file_info\<close>
  returns, and that the Document insert carries, is the extension without its leading
  dot and in the case the file name has; it equals the lower-cased extension exactly
  when the extension has no upper-case letter.
\<close>

theorem file_extension_keeps_case:
  "file_extension (get_file_info fp w) = drop 1 (path_suffix fp) \<and>
   (path_suffix fp \<noteq> [] \<longrightarrow>
      path_suffix fp = CHR ''.'' # file_extension (get_file_info fp w)) \<and>
   (file_extension (get_file_info fp w) = drop 1 (lower (path_suffix fp))
      \<longleftrightarrow> lower (path_suffix fp) = path_suffix fp) \<and>
   (path_exists w \<longrightarrow> fitz_open w = Inr doc \<longrightarrow>
      (\<exists>d. sent ''documents'' (fst (process_document fp w)) = [d] \<and>
           map_of d ''file_extension'' = Some (PyStr (drop 1 (path_suffix fp)))))"
proof -
  have ext: "file_extension (get_file_info fp w) = drop 1 (path_suffix fp)"
    by (simp add: get_file_info_def)
  have dot: "path_suffix fp \<noteq> [] \<longrightarrow>
      path_suffix fp = CHR ''.'' # file_extension (get_file_info fp w)"
    using path_suffix_dot [of fp] ext by simp
  have low: "file_extension (get_file_info fp w) = drop 1 (lower (path_suffix fp))
      \<longleftrightarrow> lower (path_suffix fp) = path_suffix fp"
  proof (cases "path_suffix fp = []")
    case True
    then show ?thesis by (simp add: ext lower_def)
  next
    case False
    with path_suffix_dot [of fp] obtain e where e: "path_suffix fp = CHR ''.'' # e" by blast
    then show ?thesis by (auto simp: ext lower_def lower_dot)
  qed
  have sub: "path_exists w \<longrightarrow> fitz_open w = Inr doc \<longrightarrow>
      (\<exists>d. sent ''documents'' (fst (process_document fp w)) = [d] \<and>
           map_of d ''file_extension'' = Some (PyStr (drop 1 (path_suffix fp))))"
  proof (intro impI)
    assume "path_exists w" and "fitz_open w = Inr doc"
    from process_document_sent [OF this, of fp]
    show "\<exists>d. sent ''documents'' (fst (process_document fp w)) = [d] \<and>
           map_of d ''file_extension'' = Some (PyStr (drop 1 (path_suffix fp)))"
      by (simp add: submitted_document_def document_data_def ext)
  qed
  from ext dot low sub show ?thesis by blast
qed

theorem file_extension_keeps_case_witness:
  "path_suffix ''docs/REPORT.PDF'' = ''.PDF'' \<and>
   path_exists two_pages \<and>
   fitz_open two_pages = Inr [good_page ''QUJD'', good_page ''REVG''] \<and>
   file_extension (get_file_info ''docs/REPORT.PDF'' two_pages) = ''PDF'' \<and>
   (\<exists>d. sent ''documents'' (fst (process_document ''docs/REPORT.PDF'' two_pages)) = [d] \<and>
        map_of d ''file_extension'' = Some (PyStr ''PDF''))"
proof -
  have s: "path_suffix ''docs/REPORT.PDF'' = ''.PDF''"
    by (simp add: path_suffix_def path_name_def)
  have h: "path_exists two_pages"
    "fitz_open two_pages = Inr [good_page ''QUJD'', good_page ''REVG'']"
    by (simp_all add: two_pages_def)
  from file_extension_keeps_case
    [of "''docs/REPORT.PDF''" two_pages "[good_page ''QUJD'', good_page ''REVG'']"] s h
  show ?thesis by simp
qed

section \<open>The version prompt\<close>

text \<open>
  C6. The Document payload that is sent carries the version \<^verbatim>\<open>1.0\<close> when the
  operator's answer to the version prompt is empty, and the answer itself, unchanged,
  when it is not; and that payload is the one stored whenever the backend answers the
  insert.
\<close>

theorem version_default:
  assumes "path_exists w" and "fitz_open w = Inr doc"
  shows "\<exists>d. sent ''documents'' (fst (process_document fp w)) = [d] \<and>
           map_of d ''version'' =
             Some (PyStr (if input_version w = [] then ''1.0'' else input_version w)) \<and>
           (\<forall>data. documents_insert w d = Inr data \<longrightarrow>
              inserts ''documents'' (fst (process_document fp w)) = [d])"
proof -
  let ?d = "submitted_document fp w (length doc)"
  have 1: "sent ''documents'' (fst (process_document fp w)) = [?d]"
    by (rule process_document_sent [OF assms])
  have 2: "map_of ?d ''version'' =
             Some (PyStr (if input_version w = [] then ''1.0'' else input_version w))"
    by (simp add: submitted_document_def document_data_def py_or_def)
  have 3: "\<forall>data. documents_insert w ?d = Inr data \<longrightarrow>
              inserts ''documents'' (fst (process_document fp w)) = [?d]"
    using process_document_stored [OF assms] by blast
  from 1 2 3 show ?thesis by blast
qed

theorem version_default_witness:
  "path_exists two_pages \<and> input_version two_pages = [] \<and>
   (\<exists>d. inserts ''documents'' (fst (process_document ''a.pdf'' two_pages)) = [d] \<and>
        map_of d ''version'' = Some (PyStr ''1.0'')) \<and>
   (\<exists>d. inserts ''documents''
           (fst (process_document ''a.pdf'' (two_pages \<lparr> input_version := ''2.3-beta'' \<rparr>))) = [d] \<and>
        map_of d ''version'' = Some (PyStr ''2.3-beta''))"
proof -
  let ?doc = "[good_page ''QUJD'', good_page ''REVG'']"
  let ?w = "two_pages \<lparr> input_version := ''2.3-beta'' \<rparr>"
  have h: "path_exists two_pages" "fitz_open two_pages = Inr ?doc"
    "input_version two_pages = []" "\<And>d. documents_insert two_pages d = Inr [[(''id'', PyInt 7)]]"
    by (simp_all add: two_pages_def)
  have h': "path_exists ?w" "fitz_open ?w = Inr ?doc"
    "input_version ?w = ''2.3-beta''" "\<And>d. documents_insert ?w d = Inr [[(''id'', PyInt 7)]]"
    by (simp_all add: two_pages_def)
  from version_default [OF h(1,2), of "''a.pdf''"] h(3,4)
  have a: "\<exists>d. inserts ''documents'' (fst (process_document ''a.pdf'' two_pages)) = [d] \<and>
        map_of d ''version'' = Some (PyStr ''1.0'')"
    by auto
  from version_default [OF h'(1,2), of "''a.pdf''"] h'(3,4)
  have b: "\<exists>d. inserts ''documents'' (fst (process_document ''a.pdf'' ?w)) = [d] \<and>
        map_of d ''version'' = Some (PyStr ''2.3-beta'')"
    by auto
  from a b h show ?thesis by blast
qed

section \<open>Successful ingestion\<close>

text \<open>
  C1. When \<open>process_document\<close> returns \<^verbatim>\<open>True\<close> for a document of \<open>P\<close> pages, exactly
  \<open>P\<close> Page inserts were sent and every one was answered, their \<open>page_number\<close> values
  are \<open>1, \<dots>, P\<close> in the order sent, and each carries the \<open>document_id\<close> that the
  Document insert returned.
\<close>

theorem success_page_rows:
  assumes "process_document fp w = (tr, Returned (PyBool True))"
  shows "\<exists>doc did. fitz_open w = Inr doc \<and>
           returned_id w (submitted_document fp w (length doc)) = Some did \<and>
           length (sent ''document_pages'' tr) = length doc \<and>
           sent ''document_pages'' tr = inserts ''document_pages'' tr \<and>
           map (\<lambda>p. map_of p ''page_number'') (inserts ''document_pages'' tr) =
             map (\<lambda>k. Some (PyInt (int k))) [1..<Suc (length doc)] \<and>
           (\<forall>p\<in>set (inserts ''document_pages'' tr). map_of p ''document_id'' = Some did)"
proof -
  from process_document_True [OF assms] obtain doc evs where
    op: "fitz_open w = Inr doc"
    and tb: "try_body fp w doc (submitted_document fp w (length doc)) = (evs, None)"
    and tr: "tr = [MkDir ''output''] @ prompts @ evs"
    by blast
  let ?d = "submitted_document fp w (length doc)"
  from try_body_None [OF tb] obtain did evs' where
    rid: "returned_id w ?d = Some did"
    and pl: "page_loop w did (path_stem fp) (length doc) 0 doc = (evs', None)"
    and evs: "evs = [Insert ''documents'' ?d] @ evs' @
                 [Close, Print (CHR 0x0A # ''Document processed successfully! Document ID: ''
                                @ str_pyval did)]"
    by blast
  from page_loop_done [OF pl, of "''document_pages''"] obtain imgs where
    len: "length imgs = length doc"
    and ins: "inserts ''document_pages'' evs' =
          map (\<lambda>(k, img). page_data did k img) (zip [0..<0 + length doc] imgs)"
    and nr: "raised_inserts ''document_pages'' evs' = []"
    by blast
  have ins_tr: "inserts ''document_pages'' tr = inserts ''document_pages'' evs'"
    by (simp add: tr evs)
  have "raised_inserts ''document_pages'' tr = []"
    by (simp add: tr evs nr)
  then have same: "sent ''document_pages'' tr = inserts ''document_pages'' tr"
    by (rule sent_no_raise)
  have ins': "inserts ''document_pages'' tr =
          map (\<lambda>(k, img). page_data did k img) (zip [0..<length doc] imgs)"
    using ins ins_tr by simp
  have n: "length (inserts ''document_pages'' tr) = length doc"
    unfolding ins' using len by simp
  have nums: "map (\<lambda>p. map_of p ''page_number'') (inserts ''document_pages'' tr) =
             map (\<lambda>k. Some (PyInt (int k))) [1..<Suc (length doc)]"
    unfolding ins' using page_numbers_zip [of imgs "[0..<length doc]" did] len
    by (simp only: page_numbers_from_one length_upt diff_zero)
  have ids: "\<forall>p\<in>set (inserts ''document_pages'' tr). map_of p ''document_id'' = Some did"
    unfolding ins' using page_ids_zip by blast
  from op rid n same nums ids show ?thesis by (metis (no_types, lifting))
qed

theorem success_page_rows_witness:
  "process_document ''a.pdf'' two_pages =
     (fst (process_document ''a.pdf'' two_pages), Returned (PyBool True)) \<and>
   map (\<lambda>p. map_of p ''page_number'')
     (inserts ''document_pages'' (fst (process_document ''a.pdf'' two_pages))) =
     [Some (PyInt 1), Some (PyInt 2)] \<and>
   map (\<lambda>p. map_of p ''document_id'')
     (inserts ''document_pages'' (fst (process_document ''a.pdf'' two_pages))) =
     [Some (PyInt 7), Some (PyInt 7)]"
proof -
  let ?tr = "fst (process_document ''a.pdf'' two_pages)"
  have run: "process_document ''a.pdf'' two_pages = (?tr, Returned (PyBool True))"
    by (simp add: two_pages_run)
  have op: "fitz_open two_pages = Inr [good_page ''QUJD'', good_page ''REVG'']"
    by (simp add: two_pages_def)
  have rid: "\<And>d. returned_id two_pages d = Some (PyInt 7)"
    by (simp add: returned_id_def two_pages_def)
  from success_page_rows [OF run] op rid have
    len: "length (inserts ''document_pages'' ?tr) = 2"
    and nums: "map (\<lambda>p. map_of p ''page_number'') (inserts ''document_pages'' ?tr) =
             [Some (PyInt 1), Some (PyInt 2)]"
    and ids: "\<forall>p\<in>set (inserts ''document_pages'' ?tr). map_of p ''document_id'' = Some (PyInt 7)"
    by (auto simp: upt_rec)
  from len obtain p q where pq: "inserts ''document_pages'' ?tr = [p, q]"
    by (auto simp: length_Suc_conv numeral_2_eq_2)
  with ids have "map (\<lambda>p. map_of p ''document_id'') (inserts ''document_pages'' ?tr) =
     [Some (PyInt 7), Some (PyInt 7)]"
    by simp
  with run nums show ?thesis by blast
qed

text \<open>
  C10. The Document payload of a successful ingestion has exactly the nine keys of
  \<open>document_keys\<close>; no insert request of any call has a \<open>created_at\<close> or
  \<open>last_modified\<close> key; and the timestamps that \<open>get_file_info\<close> computes change
  nothing of what the call does or returns.
\<close>

theorem document_payload_fields:
  assumes "process_document fp w = (tr, out)"
  shows "(out = Returned (PyBool True) \<longrightarrow>
           (\<exists>d. inserts ''documents'' tr = [d] \<and> sent ''documents'' tr = [d] \<and>
                map fst d = document_keys)) \<and>
         (\<forall>(t, p)\<in>set (requests tr).
            ''created_at'' \<notin> set (map fst p) \<and> ''last_modified'' \<notin> set (map fst p)) \<and>
         process_document fp (w \<lparr> st_ctime_iso := c, st_mtime_iso := m \<rparr>) = (tr, out)"
proof -
  have a: "out = Returned (PyBool True) \<longrightarrow>
           (\<exists>d. inserts ''documents'' tr = [d] \<and> sent ''documents'' tr = [d] \<and>
                map fst d = document_keys)"
  proof
    assume "out = Returned (PyBool True)"
    with assms have ok: "process_document fp w = (tr, Returned (PyBool True))" by simp
    from success_stores_document [OF ok] obtain doc where
      "fitz_open w = Inr doc"
      "inserts ''documents'' tr = [submitted_document fp w (length doc)]"
      "sent ''documents'' tr = [submitted_document fp w (length doc)]"
      by blast
    with submitted_document_keys [of fp w "length doc"]
    show "\<exists>d. inserts ''documents'' tr = [d] \<and> sent ''documents'' tr = [d] \<and>
                map fst d = document_keys"
      by blast
  qed
  have b: "\<forall>(t, p)\<in>set (requests tr).
            ''created_at'' \<notin> set (map fst p) \<and> ''last_modified'' \<notin> set (map fst p)"
  proof (rule ballI, rule case_prodI2)
    fix q t p assume "q \<in> set (requests tr)" and "q = (t, p)"
    then have "(t, p) \<in> set (requests tr)" by simp
    from request_keys [OF assms this]
    have "map fst p = document_keys \<or> map fst p = page_keys" by blast
    then show "''created_at'' \<notin> set (map fst p) \<and> ''last_modified'' \<notin> set (map fst p)"
      using no_timestamp_keys by metis
  qed
  have c: "process_document fp (w \<lparr> st_ctime_iso := c, st_mtime_iso := m \<rparr>) = (tr, out)"
    using assms by (simp only: process_document_timestamps)
  show ?thesis by (rule conjI, rule a, rule conjI, rule b, rule c)
qed

theorem document_payload_fields_witness:
  "snd (process_document ''a.pdf'' two_pages) = Returned (PyBool True) \<and>
   (\<exists>d. inserts ''documents'' (fst (process_document ''a.pdf'' two_pages)) = [d] \<and>
        map fst d = document_keys) \<and>
   map (\<lambda>(t, p). map fst p) (requests (fst (process_document ''a.pdf'' two_pages))) =
     [document_keys, page_keys, page_keys] \<and>
   process_document ''a.pdf''
     (two_pages \<lparr> st_ctime_iso := ''1999-12-31T23:59:59'', st_mtime_iso := [] \<rparr>) =
   process_document ''a.pdf'' two_pages"
proof -
  have ok: "snd (process_document ''a.pdf'' two_pages) = Returned (PyBool True)"
    by (simp add: two_pages_run)
  have run: "process_document ''a.pdf'' two_pages =
     (fst (process_document ''a.pdf'' two_pages), snd (process_document ''a.pdf'' two_pages))"
    by simp
  have keys: "map (\<lambda>(t, p). map fst p) (requests (fst (process_document ''a.pdf'' two_pages))) =
     [document_keys, page_keys, page_keys]"
    by (simp add: two_pages_run submitted_document_keys page_data_keys)
  note th = document_payload_fields [OF run, where c = "''1999-12-31T23:59:59''" and m = "[]"]
  from th have "process_document ''a.pdf''
     (two_pages \<lparr> st_ctime_iso := ''1999-12-31T23:59:59'', st_mtime_iso := [] \<rparr>) =
     process_document ''a.pdf'' two_pages"
    by (simp only: prod.collapse)
  with th ok keys show ?thesis by blast
qed

section \<open>An empty document\<close>

text \<open>
  C9, as stated: every existing document of zero pages has exactly one Document record
  inserted and the call returns success. For a file that exists and opens with zero
  pages while the backend raises on the Document insert, the insert is sent but not
  stored, the \<^verbatim>\<open>except\<close> branch prints the error and closes the document, and the
  call returns \<^verbatim>\<open>False\<close>.
\<close>

theorem zero_pages_backend_down_counterexample:
  "path_exists empty_document_backend_down \<and>
   fitz_open empty_document_backend_down = Inr [] \<and>
   process_document ''blank.pdf'' empty_document_backend_down =
     ([MkDir ''output''] @ prompts @
      [InsertRaised ''documents''
         (submitted_document ''blank.pdf'' empty_document_backend_down 0),
       Print ''Error processing document: connection refused'',
       Close],
      Returned (PyBool False)) \<and>
   inserts ''documents'' (fst (process_document ''blank.pdf'' empty_document_backend_down)) = [] \<and>
   snd (process_document ''blank.pdf'' empty_document_backend_down) \<noteq> Returned (PyBool True)"
  by (simp add: process_document_def empty_document_backend_down_def empty_document_def
        two_pages_def try_body_def submitted_document_def str_exn_def)

text \<open>
  C9, amended: for an existing file that opens as a document of zero pages, the call
  sends exactly one Document insert, with \<open>page_count\<close> 0, sends no Page insert and
  writes no image file; when the backend answers that insert with a row that has an
  \<open>id\<close>, the Document is stored and the call returns \<^verbatim>\<open>True\<close>; when it does not, the
  call returns \<^verbatim>\<open>False\<close>.
\<close>

theorem zero_pages:
  assumes "path_exists w" and "fitz_open w = Inr []"
    and "process_document fp w = (tr, out)"
  shows "sent ''documents'' tr = [submitted_document fp w 0] \<and>
         map_of (submitted_document fp w 0) ''page_count'' = Some (PyInt 0) \<and>
         sent ''document_pages'' tr = [] \<and>
         saves tr = [] \<and>
         (returned_id w (submitted_document fp w 0) \<noteq> None \<longrightarrow>
            inserts ''documents'' tr = [submitted_document fp w 0] \<and>
            out = Returned (PyBool True)) \<and>
         (returned_id w (submitted_document fp w 0) = None \<longrightarrow>
            out = Returned (PyBool False))"
proof -
  let ?d = "submitted_document fp w 0"
  have tr: "fst (process_document fp w) = tr" by (simp add: assms(3))
  have 1: "sent ''documents'' tr = [?d]"
    using process_document_sent [OF assms(1,2), of fp] unfolding tr by simp
  have 2: "map_of ?d ''page_count'' = Some (PyInt 0)"
    by (simp add: submitted_document_def document_data_def)
  from process_document_opened [OF assms(1,2), of fp] obtain evs r where
    tb: "try_body fp w [] ?d = (evs, r)"
    and pd: "process_document fp w =
             (case r of
                Some e \<Rightarrow>
                  ([MkDir ''output''] @ prompts @ evs @
                   [Print (''Error processing document: '' @ str_exn e), Close],
                   Returned (PyBool False))
              | None \<Rightarrow> ([MkDir ''output''] @ prompts @ evs, Returned (PyBool True)))"
    by auto
  from try_body_empty [OF tb] have
    e: "sent ''document_pages'' evs = []" "saves evs = []"
       "r = None \<longleftrightarrow> returned_id w ?d \<noteq> None"
    by simp_all
  have 3: "sent ''document_pages'' tr = []"
    using pd assms(3) e(1) by (cases r) auto
  have 4: "saves tr = []"
    using pd assms(3) e(2) by (cases r) auto
  have 5: "returned_id w ?d \<noteq> None \<longrightarrow>
            inserts ''documents'' tr = [?d] \<and> out = Returned (PyBool True)"
  proof
    assume a: "returned_id w ?d \<noteq> None"
    then obtain data where "documents_insert w ?d = Inr data"
      by (cases "documents_insert w ?d") (simp_all add: returned_id_def)
    then have "documents_insert w (submitted_document fp w (length ([] :: page list))) = Inr data"
      by simp
    from process_document_stored [OF assms(1,2) this]
    have "inserts ''documents'' tr = [?d]" unfolding tr by simp
    moreover from a e(3) have "r = None" by simp
    with pd assms(3) have "out = Returned (PyBool True)" by simp
    ultimately show "inserts ''documents'' tr = [?d] \<and> out = Returned (PyBool True)" by simp
  qed
  have 6: "returned_id w ?d = None \<longrightarrow> out = Returned (PyBool False)"
  proof
    assume "returned_id w ?d = None"
    with e(3) obtain ex where "r = Some ex" by (cases r) auto
    with pd assms(3) show "out = Returned (PyBool False)" by simp
  qed
  show ?thesis by (rule conjI, rule 1, rule conjI, rule 2, rule conjI, rule 3,
                   rule conjI, rule 4, rule conjI, rule 5, rule 6)
qed

theorem zero_pages_witness:
  "path_exists empty_document \<and> fitz_open empty_document = Inr [] \<and>
   returned_id empty_document (submitted_document ''blank.pdf'' empty_document 0)
     = Some (PyInt 7) \<and>
   inserts ''documents'' (fst (process_document ''blank.pdf'' empty_document)) =
     [submitted_document ''blank.pdf'' empty_document 0] \<and>
   sent ''document_pages'' (fst (process_document ''blank.pdf'' empty_document)) = [] \<and>
   saves (fst (process_document ''blank.pdf'' empty_document)) = [] \<and>
   snd (process_document ''blank.pdf'' empty_document) = Returned (PyBool True)"
proof -
  have h: "path_exists empty_document" "fitz_open empty_document = Inr []"
    by (simp_all add: empty_document_def two_pages_def)
  have rid: "returned_id empty_document (submitted_document ''blank.pdf'' empty_document 0)
               = Some (PyInt 7)"
    by (simp add: returned_id_def empty_document_def two_pages_def)
  have run: "process_document ''blank.pdf'' empty_document =
     (fst (process_document ''blank.pdf'' empty_document),
      snd (process_document ''blank.pdf'' empty_document))"
    by simp
  from zero_pages [OF h run] rid h show ?thesis by simp
qed

section \<open>A backend error in the page loop\<close>

text \<open>
  C2. When the Document insert has returned an id, the pages before page \<open>N\<close> go
  through and the backend raises \<open>e\<close> on the insert of page \<open>N\<close>, the call has stored
  one Document and \<open>N - 1\<close> pages; after the insert that raised it only prints the
  error line and closes the document, which it had not closed before; and it returns
  \<^verbatim>\<open>False\<close>.
\<close>

theorem backend_error_on_page:
  assumes ex: "path_exists w" and op: "fitz_open w = Inr doc"
    and rid: "returned_id w (submitted_document fp w (length doc)) = Some did"
    and N: "1 \<le> N" "N \<le> length doc"
    and before: "\<forall>k<N - 1. page_goes_through w did k (doc ! k)"
    and raises: "page_insert_raises w did (N - 1) (doc ! (N - 1)) e"
    and run: "process_document fp w = (tr, out)"
  shows "out = Returned (PyBool False) \<and>
         inserts ''documents'' tr = [submitted_document fp w (length doc)] \<and>
         length (inserts ''document_pages'' tr) = N - 1 \<and>
         (\<exists>pre pd. tr = pre @ [InsertRaised ''document_pages'' pd,
                              Print (''Error processing document: '' @ str_exn e),
                              Close] \<and>
                   map_of pd ''page_number'' = Some (PyInt (int N)) \<and>
                   raised_inserts ''documents'' pre = [] \<and>
                   raised_inserts ''document_pages'' pre = [] \<and>
                   Close \<notin> set pre)"
proof -
  let ?d = "submitted_document fp w (length doc)"
  have m: "N - 1 < length doc" using N by simp
  have before': "\<forall>k<N - 1. page_goes_through w did (0 + k) (doc ! k)"
    using before by simp
  have raises': "page_insert_raises w did (0 + (N - 1)) (doc ! (N - 1)) e"
    using raises by simp
  from page_loop_stops [OF m before' raises', of "path_stem fp" "length doc"]
  obtain evs img where
    pl: "page_loop w did (path_stem fp) (length doc) 0 doc =
           (evs @ [InsertRaised ''document_pages'' (page_data did (0 + (N - 1)) img)], Some e)"
    and cnt: "length (inserts ''document_pages'' evs) = N - 1"
    and nr: "raised_inserts ''document_pages'' evs = []"
    by blast
  let ?pd = "page_data did (0 + (N - 1)) img"
  let ?pre = "[MkDir ''output''] @ prompts @ [Insert ''documents'' ?d] @ evs"
  let ?tail = "[InsertRaised ''document_pages'' ?pd,
                Print (''Error processing document: '' @ str_exn e), Close]"
  have tb: "try_body fp w doc ?d =
              ([Insert ''documents'' ?d] @ evs @ [InsertRaised ''document_pages'' ?pd], Some e)"
    using try_body_stops [OF rid pl] by simp
  from process_document_opened [OF ex op, of fp] tb
  have "process_document fp w = (?pre @ ?tail, Returned (PyBool False))"
    by auto
  with run have tr: "tr = ?pre @ ?tail" and out: "out = Returned (PyBool False)"
    by simp_all
  have nodoc: "inserts ''documents'' evs = []"
  proof -
    have "inserts ''documents'' (evs @ [InsertRaised ''document_pages'' ?pd]) = []"
      by (rule page_loop_inserts_documents [OF pl])
    then show ?thesis by simp
  qed
  have nodocr: "raised_inserts ''documents'' evs = []"
  proof -
    have "sent ''documents'' (evs @ [InsertRaised ''document_pages'' ?pd]) = []"
      by (rule page_loop_sent_documents [OF pl])
    then have s: "sent ''documents'' evs = []" by simp
    have "set (raised_inserts ''documents'' evs) \<subseteq> set (sent ''documents'' evs)"
      by (induction evs) (auto split: event.splits)
    with s show ?thesis by simp
  qed
  have noclose: "Close \<notin> set evs"
    using page_loop_no_close [OF pl] by simp
  have 1: "inserts ''documents'' tr = [?d]"
    unfolding tr using nodoc by simp
  have 2: "length (inserts ''document_pages'' tr) = N - 1"
    unfolding tr using cnt by simp
  have 3: "map_of ?pd ''page_number'' = Some (PyInt (int N))"
    using N by (simp add: page_data_def)
  have 4: "raised_inserts ''documents'' ?pre = []"
    using nodocr by simp
  have 5: "raised_inserts ''document_pages'' ?pre = []"
    using nr by simp
  have 6: "Close \<notin> set ?pre"
    using noclose prompts_no_close by simp
  have "\<exists>pre pd. tr = pre @ [InsertRaised ''document_pages'' pd,
                              Print (''Error processing document: '' @ str_exn e),
                              Close] \<and>
                   map_of pd ''page_number'' = Some (PyInt (int N)) \<and>
                   raised_inserts ''documents'' pre = [] \<and>
                   raised_inserts ''document_pages'' pre = [] \<and>
                   Close \<notin> set pre"
    using tr 3 4 5 6 by blast
  with out 1 2 show ?thesis by blast
qed

theorem backend_error_on_page_witness:
  "path_exists fails_on_page_2 \<and>
   page_goes_through fails_on_page_2 (PyInt 7) 0 (good_page ''QUJD'') \<and>
   page_insert_raises fails_on_page_2 (PyInt 7) 1 (good_page ''REVG'')
     (LibError ''connection reset'') \<and>
   snd (process_document ''a.pdf'' fails_on_page_2) = Returned (PyBool False) \<and>
   length (inserts ''documents'' (fst (process_document ''a.pdf'' fails_on_page_2))) = 1 \<and>
   length (inserts ''document_pages'' (fst (process_document ''a.pdf'' fails_on_page_2))) = 1 \<and>
   last (fst (process_document ''a.pdf'' fails_on_page_2)) = Close"
proof -
  let ?w = "fails_on_page_2"
  let ?doc = "[good_page ''QUJD'', good_page ''REVG'']"
  let ?e = "LibError ''connection reset''"
  have ex: "path_exists ?w" by (simp add: fails_on_page_2_def two_pages_def)
  have op: "fitz_open ?w = Inr ?doc" by (simp add: fails_on_page_2_def two_pages_def)
  have rid: "returned_id ?w (submitted_document ''a.pdf'' ?w (length ?doc)) = Some (PyInt 7)"
    by (simp add: returned_id_def fails_on_page_2_def two_pages_def)
  have N: "(1::nat) \<le> 2" "2 \<le> length ?doc" by simp_all
  have p0: "page_goes_through ?w (PyInt 7) 0 (good_page ''QUJD'')"
    by (simp add: page_goes_through_def good_page_def page_data_def fails_on_page_2_def
          two_pages_def)
  have p1: "page_insert_raises ?w (PyInt 7) 1 (good_page ''REVG'') ?e"
    by (simp add: page_insert_raises_def good_page_def page_data_def fails_on_page_2_def
          two_pages_def)
  have before: "\<forall>k<2 - 1. page_goes_through ?w (PyInt 7) k (?doc ! k)"
    using p0 by simp
  have raises: "page_insert_raises ?w (PyInt 7) (2 - 1) (?doc ! (2 - 1)) ?e"
    using p1 by simp
  have run: "process_document ''a.pdf'' ?w =
     (fst (process_document ''a.pdf'' ?w), snd (process_document ''a.pdf'' ?w))"
    by simp
  from backend_error_on_page [OF ex op rid N before raises run]
  have "snd (process_document ''a.pdf'' ?w) = Returned (PyBool False)"
    "length (inserts ''documents'' (fst (process_document ''a.pdf'' ?w))) = 1"
    "length (inserts ''document_pages'' (fst (process_document ''a.pdf'' ?w))) = 1"
    "last (fst (process_document ''a.pdf'' ?w)) = Close"
    by auto
  with ex p0 p1 show ?thesis by blast
qed

end
